theory Spec2Isabelle
  imports Complex_Main "HOL-Library.Sublist" "HOL-Library.Monad_Syntax"
begin

section \<open>The float values of the sketch\<close>

text \<open>
  The sketch computes with the C++ type \<open>float\<close>. A float is modelled by the value it
  denotes: a finite value is the real number it stands for (rounding and overflow of the
  binary format are not modelled, and the two zeros are one value, read as \<open>+0\<close>), and
  the three special values of IEEE 754 are kept, because the sketch divides by a
  measured quantity that can be zero. The operations below follow IEEE 754 on the special
  values.
\<close>

datatype cfloat = Finite real | PInf | NInf | NaN

fun fneg :: "cfloat \<Rightarrow> cfloat" where
  "fneg (Finite x) = Finite (- x)"
| "fneg PInf = NInf"
| "fneg NInf = PInf"
| "fneg NaN = NaN"

fun fadd :: "cfloat \<Rightarrow> cfloat \<Rightarrow> cfloat" where
  "fadd (Finite x) (Finite y) = Finite (x + y)"
| "fadd (Finite x) PInf = PInf"
| "fadd (Finite x) NInf = NInf"
| "fadd PInf (Finite y) = PInf"
| "fadd PInf PInf = PInf"
| "fadd PInf NInf = NaN"
| "fadd NInf (Finite y) = NInf"
| "fadd NInf PInf = NaN"
| "fadd NInf NInf = NInf"
| "fadd NaN b = NaN"
| "fadd a NaN = NaN"

definition fsub :: "cfloat \<Rightarrow> cfloat \<Rightarrow> cfloat" where
  "fsub a b = fadd a (fneg b)"

fun fmul :: "cfloat \<Rightarrow> cfloat \<Rightarrow> cfloat" where
  "fmul (Finite x) (Finite y) = Finite (x * y)"
| "fmul (Finite x) PInf = (if x = 0 then NaN else if 0 < x then PInf else NInf)"
| "fmul (Finite x) NInf = (if x = 0 then NaN else if 0 < x then NInf else PInf)"
| "fmul PInf (Finite y) = (if y = 0 then NaN else if 0 < y then PInf else NInf)"
| "fmul NInf (Finite y) = (if y = 0 then NaN else if 0 < y then NInf else PInf)"
| "fmul PInf PInf = PInf"
| "fmul PInf NInf = NInf"
| "fmul NInf PInf = NInf"
| "fmul NInf NInf = PInf"
| "fmul NaN b = NaN"
| "fmul a NaN = NaN"

text \<open>
  Division by a zero divisor does not trap: it gives \<open>NaN\<close> for \<open>0 / 0\<close> and an
  infinity otherwise.
\<close>

fun fdiv :: "cfloat \<Rightarrow> cfloat \<Rightarrow> cfloat" where
  "fdiv (Finite x) (Finite y) =
     (if y \<noteq> 0 then Finite (x / y)
      else if x = 0 then NaN else if 0 < x then PInf else NInf)"
| "fdiv (Finite x) PInf = Finite 0"
| "fdiv (Finite x) NInf = Finite 0"
| "fdiv PInf (Finite y) = (if 0 \<le> y then PInf else NInf)"
| "fdiv NInf (Finite y) = (if 0 \<le> y then NInf else PInf)"
| "fdiv PInf PInf = NaN"
| "fdiv PInf NInf = NaN"
| "fdiv NInf PInf = NaN"
| "fdiv NInf NInf = NaN"
| "fdiv NaN b = NaN"
| "fdiv a NaN = NaN"

fun fsqrt :: "cfloat \<Rightarrow> cfloat" where
  "fsqrt (Finite x) = (if 0 \<le> x then Finite (sqrt x) else NaN)"
| "fsqrt PInf = PInf"
| "fsqrt NInf = NaN"
| "fsqrt NaN = NaN"

text \<open>\<open>pow(x, 2)\<close> of the C library: the square, \<open>+inf\<close> for both infinities.\<close>

definition pow2 :: "cfloat \<Rightarrow> cfloat" where
  "pow2 x = fmul x x"

text \<open>Conversion of an \<open>int\<close> to \<open>float\<close> (implicit at every call of \<open>float_map\<close>).\<close>

definition float_of_int :: "int \<Rightarrow> cfloat" where
  "float_of_int i = Finite (of_int i)"

text \<open>
  Conversion of a \<open>float\<close> to \<open>int\<close> truncates toward zero. It is undefined in C++ for a
  value that has no \<open>int\<close>; the range taken here is the 16 bits every \<open>int\<close> has.
\<close>

fun int_of_float :: "cfloat \<Rightarrow> int option" where
  "int_of_float (Finite x) =
     (if - 32768 < x \<and> x < 32768
      then Some (if 0 \<le> x then \<lfloor>x\<rfloor> else \<lceil>x\<rceil>) else None)"
| "int_of_float PInf = None"
| "int_of_float NInf = None"
| "int_of_float NaN = None"

section \<open>Structs and constants\<close>

record AnalogStats =
  mean :: cfloat
  stddev :: cfloat

record DiffStats =
  diff :: cfloat
  error :: cfloat

definition RESISTOR :: cfloat where
  "RESISTOR = Finite (2183 / 10)"

definition RESISTOR_TOLERANCE :: cfloat where
  "RESISTOR_TOLERANCE = Finite (5 / 1000)"

section \<open>Utility functions\<close>

definition float_map :: "cfloat \<Rightarrow> cfloat \<Rightarrow> cfloat \<Rightarrow> cfloat \<Rightarrow> cfloat \<Rightarrow> cfloat" where
  "float_map val fromLow fromHigh toLow toHigh =
     fadd toLow (fdiv (fmul (fsub val fromLow) (fsub toHigh toLow)) (fsub fromHigh fromLow))"

definition propagate_addition_stddev :: "cfloat \<Rightarrow> cfloat \<Rightarrow> cfloat \<Rightarrow> cfloat \<Rightarrow> cfloat" where
  "propagate_addition_stddev a b stddev_a stddev_b =
     fsqrt (fadd (fmul (pow2 a) (pow2 stddev_a)) (fmul (pow2 b) (pow2 stddev_b)))"

definition calcDiffStats :: "AnalogStats \<Rightarrow> AnalogStats \<Rightarrow> DiffStats" where
  "calcDiffStats a b =
     \<lparr> diff = fsub (mean a) (mean b),
       error = propagate_addition_stddev (mean a) (mean b) (stddev a) (stddev b) \<rparr>"

text \<open>
  The Current Estimator: lines 314 to 318 of \<open>acquireAndPrintData\<close>, which compute
  \<open>current\<close> and \<open>currentError\<close> from the first difference. They are named here so that
  they can be stated on their own; \<open>acquireAndPrintData\<close> below calls them.
\<close>

definition estimateCurrent :: "DiffStats \<Rightarrow> cfloat \<times> cfloat" where
  "estimateCurrent a0_a1 =
     (let current = fmul (fdiv (diff a0_a1) RESISTOR) (Finite 1000);
          dV = error a0_a1;
          dR = fmul RESISTOR RESISTOR_TOLERANCE;
          currentError =
            fmul current (fsqrt (fadd (pow2 (fdiv dV (diff a0_a1))) (pow2 (fdiv dR RESISTOR))))
      in (current, currentError))"

section \<open>The board: serial port, DAC, ADC and clock\<close>

text \<open>
  The state the sketch acts on: its latch \<open>hasRun\<close>, every character written to the
  serial port, every code sent to the DAC, the number of conversions asked of the ADC and
  the time spent in \<open>delay\<close>. What the ADC returns is not decided by the sketch: it is a
  parameter \<open>adc\<close>, giving for a pin and the number of earlier conversions the raw reading.
  The pin numbers of the board are not in the sources; the three pins are a datatype.
\<close>

datatype pin = A0 | A1 | A2

record world =
  hasRun :: bool
  serial :: string
  dacWrites :: "int list"
  adcReads :: nat
  elapsed :: nat

definition power_up :: world where
  "power_up = \<lparr> hasRun = False, serial = [], dacWrites = [], adcReads = 0, elapsed = 0 \<rparr>"

definition CRLF :: string where
  "CRLF = [CHR 0x0D, CHR 0x0A]"

definition Serial_print :: "string \<Rightarrow> world \<Rightarrow> world" where
  "Serial_print s w = w\<lparr> serial := serial w @ s \<rparr>"

definition Serial_println :: "string \<Rightarrow> world \<Rightarrow> world" where
  "Serial_println s w = Serial_print CRLF (Serial_print s w)"

definition delay :: "nat \<Rightarrow> world \<Rightarrow> world" where
  "delay ms w = w\<lparr> elapsed := elapsed w + ms \<rparr>"

definition dac_setVoltage :: "int \<Rightarrow> world \<Rightarrow> world" where
  "dac_setVoltage output w = w\<lparr> dacWrites := dacWrites w @ [output] \<rparr>"

definition analogRead :: "(pin \<Rightarrow> nat \<Rightarrow> int) \<Rightarrow> pin \<Rightarrow> world \<Rightarrow> int \<times> world" where
  "analogRead adc p w = (adc p (adcReads w), w\<lparr> adcReads := Suc (adcReads w) \<rparr>)"

subsection \<open>Printing numbers\<close>

text \<open>
  The text of a number is made by the Arduino core, which is not part of the sources.
  \<open>Serial.print(value, digits)\<close> of a float is \<open>Print::printFloat\<close>: \<open>nan\<close>, \<open>inf\<close> and
  \<open>ovf\<close> for the values it does not print, otherwise the sign, the value rounded by
  adding half a unit of the last digit, its integer part, a point and \<open>digits\<close> fractional
  digits taken one at a time. \<open>String(value)\<close> of a float has two decimal places by its
  default argument; its text for a value that is not finite is not modelled (\<open>None\<close>).
\<close>

definition digit_char :: "nat \<Rightarrow> char" where
  "digit_char d = ''0123456789'' ! d"

fun printNumber :: "nat \<Rightarrow> string" where
  "printNumber n =
     (if n < 10 then [digit_char n] else printNumber (n div 10) @ [digit_char (n mod 10)])"

fun frac_digits :: "nat \<Rightarrow> real \<Rightarrow> string" where
  "frac_digits digits remainder =
     (if 0 < digits then
        (let r = remainder * 10; toPrint = nat \<lfloor>r\<rfloor>
         in printNumber toPrint @ frac_digits (digits - 1) (r - real toPrint))
      else [])"

definition fixed_decimal :: "real \<Rightarrow> nat \<Rightarrow> string" where
  "fixed_decimal x digits =
     (let number = (if x < 0 then - x else x) + (1 / 2) / 10 ^ digits;
          int_part = nat \<lfloor>number\<rfloor>;
          remainder = number - real int_part
      in (if x < 0 then ''-'' else []) @ printNumber int_part
           @ (if 0 < digits then ''.'' else []) @ frac_digits digits remainder)"

fun printFloat :: "cfloat \<Rightarrow> nat \<Rightarrow> string" where
  "printFloat NaN digits = ''nan''"
| "printFloat PInf digits = ''inf''"
| "printFloat NInf digits = ''inf''"
| "printFloat (Finite x) digits =
     (if 4294967040 < x then ''ovf'' else if x < - 4294967040 then ''ovf''
      else fixed_decimal x digits)"

fun String_float :: "cfloat \<Rightarrow> string option" where
  "String_float (Finite x) = Some (fixed_decimal x 2)"
| "String_float PInf = None"
| "String_float NInf = None"
| "String_float NaN = None"

section \<open>Record Emitter\<close>

definition printSerialCSV :: "cfloat \<Rightarrow> bool \<Rightarrow> nat \<Rightarrow> world \<Rightarrow> world" where
  "printSerialCSV val eol precision w =
     (if eol then Serial_println (printFloat val precision) w
      else Serial_print '','' (Serial_print (printFloat val precision) w))"

definition printDataCSVRow ::
  "cfloat \<Rightarrow> AnalogStats \<Rightarrow> AnalogStats \<Rightarrow> AnalogStats \<Rightarrow> DiffStats \<Rightarrow> DiffStats
     \<Rightarrow> cfloat \<Rightarrow> cfloat \<Rightarrow> world \<Rightarrow> world option" where
  "printDataCSVRow outputVoltage a0 a1 a2 a0_a1 a1_a2 current currentError w =
     do {
       s \<leftarrow> String_float outputVoltage;
       let w = Serial_print (s @ '','') w;
       let w = printSerialCSV (mean a0) False 4 w;
       let w = printSerialCSV (stddev a0) False 4 w;
       let w = printSerialCSV (mean a1) False 4 w;
       let w = printSerialCSV (stddev a1) False 4 w;
       let w = printSerialCSV (mean a2) False 4 w;
       let w = printSerialCSV (stddev a2) False 4 w;
       let w = printSerialCSV (diff a0_a1) False 4 w;
       let w = printSerialCSV (error a0_a1) False 4 w;
       let w = printSerialCSV (diff a1_a2) False 4 w;
       let w = printSerialCSV (error a1_a2) False 4 w;
       let w = printSerialCSV current False 4 w;
       Some (printSerialCSV currentError True 4 w)
     }"

section \<open>Analog Sampler\<close>

text \<open>
  \<open>float values[20]\<close> is a buffer of twenty cells that hold nothing yet. A write or a read
  outside the buffer, and a read of a cell never written, are undefined in C++: \<open>None\<close>.
\<close>

type_synonym buffer = "cfloat option list"

definition new_buffer :: buffer where
  "new_buffer = replicate 20 None"

definition buf_write :: "buffer \<Rightarrow> int \<Rightarrow> cfloat \<Rightarrow> buffer option" where
  "buf_write b i v = (if 0 \<le> i \<and> i < int (length b) then Some (b[nat i := Some v]) else None)"

definition buf_read :: "buffer \<Rightarrow> int \<Rightarrow> cfloat option" where
  "buf_read b i = (if 0 \<le> i \<and> i < int (length b) then b ! nat i else None)"

function sample_loop ::
  "(pin \<Rightarrow> nat \<Rightarrow> int) \<Rightarrow> pin \<Rightarrow> int \<Rightarrow> int \<Rightarrow> buffer \<Rightarrow> cfloat \<Rightarrow> world
     \<Rightarrow> (buffer \<times> cfloat \<times> world) option" where
  "sample_loop adc p samples i vals total_v w =
     (if i < samples then
        (case analogRead adc p w of (r, w1) \<Rightarrow>
           (case buf_write vals i (float_of_int r) of
              None \<Rightarrow> None
            | Some vals1 \<Rightarrow>
                (case buf_read vals1 i of
                   None \<Rightarrow> None
                 | Some v \<Rightarrow> sample_loop adc p samples (i + 1) vals1 (fadd total_v v) (delay 5 w1))))
      else Some (vals, total_v, w))"
  by pat_completeness auto
termination
  by (relation "measure (\<lambda>(adc, p, samples, i, vals, total_v, w). nat (samples - i))") auto

function variance_loop :: "buffer \<Rightarrow> cfloat \<Rightarrow> int \<Rightarrow> int \<Rightarrow> cfloat \<Rightarrow> cfloat option" where
  "variance_loop vals mean_v samples i variance =
     (if i < samples then
        (case buf_read vals i of
           None \<Rightarrow> None
         | Some v \<Rightarrow>
             variance_loop vals mean_v samples (i + 1)
               (fadd variance (fmul (fsub v mean_v) (fsub v mean_v))))
      else Some variance)"
  by pat_completeness auto
termination
  by (relation "measure (\<lambda>(vals, mean_v, samples, i, variance). nat (samples - i))") auto

definition readAnalogToVoltage ::
  "(pin \<Rightarrow> nat \<Rightarrow> int) \<Rightarrow> pin \<Rightarrow> int \<Rightarrow> world \<Rightarrow> (AnalogStats \<times> world) option" where
  "readAnalogToVoltage adc p samples w =
     (case sample_loop adc p samples 0 new_buffer (Finite 0) w of
        None \<Rightarrow> None
      | Some (vals, total_v, w1) \<Rightarrow>
          (let mean_v = fdiv total_v (float_of_int samples) in
           case variance_loop vals mean_v samples 0 (Finite 0) of
             None \<Rightarrow> None
           | Some variance \<Rightarrow>
               (let variance = fdiv variance (float_of_int samples);
                    stddev_v = fsqrt variance
                in Some (\<lparr> mean = float_map mean_v (Finite 0) (Finite 1023) (Finite 0) (Finite 5),
                            stddev = float_map stddev_v (Finite 0) (Finite 1023) (Finite 0) (Finite 5) \<rparr>,
                         w1))))"

definition readA0 :: "(pin \<Rightarrow> nat \<Rightarrow> int) \<Rightarrow> world \<Rightarrow> (AnalogStats \<times> world) option" where
  "readA0 adc w = readAnalogToVoltage adc A0 10 w"

definition readA1 :: "(pin \<Rightarrow> nat \<Rightarrow> int) \<Rightarrow> world \<Rightarrow> (AnalogStats \<times> world) option" where
  "readA1 adc w = readAnalogToVoltage adc A1 10 w"

definition readA2 :: "(pin \<Rightarrow> nat \<Rightarrow> int) \<Rightarrow> world \<Rightarrow> (AnalogStats \<times> world) option" where
  "readA2 adc w = readAnalogToVoltage adc A2 10 w"

section \<open>Ramp Controller\<close>

definition setDACVoltageByStep :: "int \<Rightarrow> world \<Rightarrow> world option" where
  "setDACVoltageByStep step w =
     (case int_of_float (float_map (float_of_int step) (Finite 0) (Finite 51) (Finite 0) (Finite 4095)) of
        None \<Rightarrow> None
      | Some outputSignal \<Rightarrow> Some (dac_setVoltage outputSignal w))"

definition acquireAndPrintData :: "(pin \<Rightarrow> nat \<Rightarrow> int) \<Rightarrow> int \<Rightarrow> world \<Rightarrow> world option" where
  "acquireAndPrintData adc step w =
     (let outputVoltage = fdiv (float_of_int step) (Finite 10) in
      do {
        w \<leftarrow> setDACVoltageByStep step w;
        let w = delay 50 w;
        (signalA0, w) \<leftarrow> readA0 adc w;
        (signalA1, w) \<leftarrow> readA1 adc w;
        (signalA2, w) \<leftarrow> readA2 adc w;
        let a0_a1 = calcDiffStats signalA0 signalA1;
        let a1_a2 = calcDiffStats signalA1 signalA2;
        let (current, currentError) = estimateCurrent a0_a1;
        w \<leftarrow> printDataCSVRow outputVoltage signalA0 signalA1 signalA2 a0_a1 a1_a2
               current currentError w;
        Some (delay 50 w)
      })"

fun print_dashes :: "nat \<Rightarrow> world \<Rightarrow> world" where
  "print_dashes 0 w = w"
| "print_dashes (Suc n) w = print_dashes n (Serial_print ''-'' w)"

definition printHeader :: "world \<Rightarrow> world" where
  "printHeader w =
     (let w = print_dashes 35 w;
          w = Serial_println [] w;
          w = Serial_println ''DAC mounted to 0x62'' w;
          w = Serial_println ''Outputting voltage series.'' w
      in Serial_println
           ''out,A0,dA0,A1,dA1,A2,dA2,A0-A1,d(A0-A1),A1-A2,d(A1-A2),current (mA),d(current (mA))'' w)"

text \<open>
  \<open>Serial.begin(9600)\<close> and \<open>dac.begin(0x62)\<close> configure the serial port and the DAC; they
  write nothing to either and leave the state as it is.
\<close>

definition setup_fn :: "world \<Rightarrow> world" where
  "setup_fn w =
     (let w = print_dashes 35 w;
          w = Serial_println [] w
      in Serial_println ''DAC mounted to 0x62'' w)"

function ramp :: "(pin \<Rightarrow> nat \<Rightarrow> int) \<Rightarrow> int \<Rightarrow> world \<Rightarrow> world option" where
  "ramp adc i w =
     (if i < 51 then
        (case acquireAndPrintData adc i w of
           None \<Rightarrow> None
         | Some w1 \<Rightarrow> ramp adc (i + 1) w1)
      else Some w)"
  by pat_completeness auto
termination
  by (relation "measure (\<lambda>(adc, i, w). nat (51 - i))") auto

definition loop :: "(pin \<Rightarrow> nat \<Rightarrow> int) \<Rightarrow> world \<Rightarrow> world option" where
  "loop adc w =
     (if \<not> hasRun w then
        (case ramp adc 0 (printHeader w) of
           None \<Rightarrow> None
         | Some w1 \<Rightarrow> Some ((Serial_println ''Finished'' w1)\<lparr> hasRun := True \<rparr>))
      else Some w)"

text \<open>
  The Arduino runtime calls \<open>setup\<close> (here \<open>setup_fn\<close>) once after power-up and then
  \<open>loop\<close> again and again; \<open>loops n\<close> is the first \<open>n\<close> of these calls and \<open>run\<close> the sketch
  up to there.
\<close>

fun loops :: "(pin \<Rightarrow> nat \<Rightarrow> int) \<Rightarrow> nat \<Rightarrow> world \<Rightarrow> world option" where
  "loops adc 0 w = Some w"
| "loops adc (Suc n) w = (case loop adc w of None \<Rightarrow> None | Some w1 \<Rightarrow> loops adc n w1)"

definition run :: "(pin \<Rightarrow> nat \<Rightarrow> int) \<Rightarrow> nat \<Rightarrow> world option" where
  "run adc n = loops adc n (setup_fn power_up)"

section \<open>The statistics of a list of readings\<close>

text \<open>
  The notions the claims about the sampler are stated with: the readings the ADC returns
  on pin \<open>p\<close> from its \<open>k\<close>-th conversion on, their arithmetic mean, their population
  standard deviation (the sum of squared deviations divided by the number of readings),
  and the Range Mapper from \<open>[0, 1023]\<close> to \<open>[0, 5.0]\<close> volts.
\<close>

definition readings :: "(pin \<Rightarrow> nat \<Rightarrow> int) \<Rightarrow> pin \<Rightarrow> nat \<Rightarrow> nat \<Rightarrow> real list" where
  "readings adc p k n = map (\<lambda>j. of_int (adc p (k + j))) [0..<n]"

definition arith_mean :: "real list \<Rightarrow> real" where
  "arith_mean rs = sum_list rs / real (length rs)"

definition pop_stddev :: "real list \<Rightarrow> real" where
  "pop_stddev rs = sqrt (sum_list (map (\<lambda>r. (r - arith_mean rs)\<^sup>2) rs) / real (length rs))"

definition to_volts :: "real \<Rightarrow> cfloat" where
  "to_volts x = float_map (Finite x) (Finite 0) (Finite 1023) (Finite 0) (Finite 5)"

definition sample_stats :: "real list \<Rightarrow> AnalogStats" where
  "sample_stats rs = \<lparr> mean = to_volts (arith_mean rs), stddev = to_volts (pop_stddev rs) \<rparr>"

section \<open>The text of a row and of a run\<close>

text \<open>
  The notions the claims about the output are stated with: fields joined by commas, the
  digits after the decimal point of a field, a field free of commas and line breaks, a
  line, the DAC code of a step, the row of a step (with the statistics the sampler
  returns when the ADC has converted \<open>k\<close> times before) and the fixed lines of the stream.
\<close>

fun join_commas :: "string list \<Rightarrow> string" where
  "join_commas [] = []"
| "join_commas [f] = f"
| "join_commas (f # g # fs) = f @ '','' @ join_commas (g # fs)"

definition is_digit :: "char \<Rightarrow> bool" where
  "is_digit c = (c \<in> set ''0123456789'')"

definition frac_part :: "string \<Rightarrow> string" where
  "frac_part s = tl (dropWhile (\<lambda>c. c \<noteq> CHR ''.'') s)"

definition has_frac_digits :: "nat \<Rightarrow> string \<Rightarrow> bool" where
  "has_frac_digits n s =
     (CHR ''.'' \<in> set s \<and> length (frac_part s) = n \<and> list_all is_digit (frac_part s))"

definition plain_field :: "string \<Rightarrow> bool" where
  "plain_field f = (CHR '','' \<notin> set f \<and> CHR 0x0D \<notin> set f \<and> CHR 0x0A \<notin> set f)"

definition dac_code :: "int \<Rightarrow> int" where
  "dac_code step = step * 4095 div 51"

definition csv_row ::
  "real \<Rightarrow> AnalogStats \<Rightarrow> AnalogStats \<Rightarrow> AnalogStats \<Rightarrow> DiffStats \<Rightarrow> DiffStats
     \<Rightarrow> cfloat \<Rightarrow> cfloat \<Rightarrow> string list" where
  "csv_row x a0 a1 a2 a0_a1 a1_a2 current currentError =
     fixed_decimal x 2 #
     map (\<lambda>v. printFloat v 4)
       [mean a0, stddev a0, mean a1, stddev a1, mean a2, stddev a2,
        diff a0_a1, error a0_a1, diff a1_a2, error a1_a2, current, currentError]"

definition step_row :: "(pin \<Rightarrow> nat \<Rightarrow> int) \<Rightarrow> nat \<Rightarrow> int \<Rightarrow> string" where
  "step_row adc k step =
     (let signalA0 = sample_stats (readings adc A0 k 10);
          signalA1 = sample_stats (readings adc A1 (k + 10) 10);
          signalA2 = sample_stats (readings adc A2 (k + 20) 10);
          a0_a1 = calcDiffStats signalA0 signalA1;
          a1_a2 = calcDiffStats signalA1 signalA2
      in join_commas (csv_row (of_int step / 10) signalA0 signalA1 signalA2 a0_a1 a1_a2
                        (fst (estimateCurrent a0_a1)) (snd (estimateCurrent a0_a1))) @ CRLF)"

definition separator_line :: string where
  "separator_line = replicate 35 (CHR ''-'') @ CRLF"

definition device_line :: string where
  "device_line = ''DAC mounted to 0x62'' @ CRLF"

definition announce_line :: string where
  "announce_line = ''Outputting voltage series.'' @ CRLF"

definition header_line :: string where
  "header_line =
     ''out,A0,dA0,A1,dA1,A2,dA2,A0-A1,d(A0-A1),A1-A2,d(A1-A2),current (mA),d(current (mA))'' @ CRLF"

definition finished_line :: string where
  "finished_line = ''Finished'' @ CRLF"

definition data_rows :: "(pin \<Rightarrow> nat \<Rightarrow> int) \<Rightarrow> nat \<Rightarrow> string list" where
  "data_rows adc k = map (\<lambda>i. step_row adc (k + 30 * i) (int i)) [0..<51]"

definition is_line :: "string \<Rightarrow> bool" where
  "is_line s =
     (2 \<le> length s \<and> drop (length s - 2) s = CRLF
      \<and> CHR 0x0D \<notin> set (take (length s - 2) s) \<and> CHR 0x0A \<notin> set (take (length s - 2) s))"

definition commas :: "string \<Rightarrow> nat" where
  "commas s = count_list s (CHR '','')"

definition num_char :: "char \<Rightarrow> bool" where
  "num_char c = (c \<in> set ''0123456789-.nanifov'')"

declare sample_loop.simps [simp del] variance_loop.simps [simp del]
declare printNumber.simps [simp del] frac_digits.simps [simp del] ramp.simps [simp del]

section \<open>Facts about the float operations\<close>

lemma fsub_Finite: "fsub (Finite x) (Finite y) = Finite (x - y)"
  by (simp add: fsub_def)

lemma pow2_Finite: "pow2 (Finite x) = Finite (x\<^sup>2)"
  by (simp add: pow2_def power2_eq_square)

lemma float_map_Finite:
  "float_map (Finite x) (Finite a) (Finite b) (Finite c) (Finite d) =
     (if b - a \<noteq> 0 then Finite (c + (x - a) * (d - c) / (b - a))
      else if (x - a) * (d - c) = 0 then NaN
      else if 0 < (x - a) * (d - c) then PInf else NInf)"
  by (simp add: float_map_def fsub_Finite)

lemma propagate_addition_stddev_Finite:
  "propagate_addition_stddev (Finite a) (Finite b) (Finite sa) (Finite sb) =
     Finite (sqrt (a\<^sup>2 * sa\<^sup>2 + b\<^sup>2 * sb\<^sup>2))"
  by (simp add: propagate_addition_stddev_def pow2_Finite)

section \<open>Range Mapper\<close>

text \<open>
  C8. The Range Mapper is inverse-consistent in exact arithmetic: for finite \<open>x\<close> and
  finite bounds with \<open>b \<noteq> a\<close> and \<open>d \<noteq> c\<close>, mapping \<open>x\<close> from \<open>[a, b]\<close> to \<open>[c, d]\<close>
  and the result back from \<open>[c, d]\<close> to \<open>[a, b]\<close> gives \<open>x\<close> again, where the map is
  \<open>toLow + (value - fromLow) * (toHigh - toLow) / (fromHigh - fromLow)\<close>.
\<close>

theorem float_map_inverse:
  assumes "b \<noteq> a" and "d \<noteq> c"
  shows "float_map (Finite x) (Finite a) (Finite b) (Finite c) (Finite d)
           = Finite (c + (x - a) * (d - c) / (b - a))
       \<and> float_map (float_map (Finite x) (Finite a) (Finite b) (Finite c) (Finite d))
           (Finite c) (Finite d) (Finite a) (Finite b) = Finite x"
  using assms by (simp add: float_map_Finite)

theorem float_map_inverse_witness:
  "(1023::real) \<noteq> 0 \<and> (5::real) \<noteq> 0
   \<and> float_map (Finite 512) (Finite 0) (Finite 1023) (Finite 0) (Finite 5)
       = Finite (0 + (512 - 0) * (5 - 0) / (1023 - 0))
   \<and> float_map (float_map (Finite 512) (Finite 0) (Finite 1023) (Finite 0) (Finite 5))
       (Finite 0) (Finite 5) (Finite 0) (Finite 1023) = Finite 512"
proof -
  have ne: "(1023::real) \<noteq> 0" "(5::real) \<noteq> 0" by simp_all
  from float_map_inverse [OF ne, of 512] ne show ?thesis by blast
qed

section \<open>Difference-with-Error Combiner\<close>

text \<open>
  C1. For every pair of sample statistics, \<open>calcDiffStats\<close> returns the difference
  \<open>a.mean - b.mean\<close> and the error \<open>sqrt(a.mean^2 * a.stddev^2 + b.mean^2 * b.stddev^2)\<close>,
  in the arithmetic of floats; for statistics with finite fields these are the real
  difference and the real square root.
  At \<open>a = (2.5, 0.01)\<close>, \<open>b = (2.0, 0.01)\<close> the difference is \<open>0.5\<close> and the error is
  \<open>sqrt(0.000625 + 0.0004)\<close>, which is not \<open>sqrt(0.01^2 + 0.01^2)\<close>; and two inputs with
  the same statistics have difference \<open>0\<close>.
\<close>

theorem calcDiffStats_formula:
  "calcDiffStats a b =
     \<lparr> diff = fsub (mean a) (mean b),
       error = fsqrt (fadd (fmul (pow2 (mean a)) (pow2 (stddev a)))
                           (fmul (pow2 (mean b)) (pow2 (stddev b)))) \<rparr>
   \<and> calcDiffStats \<lparr> mean = Finite ma, stddev = Finite sa \<rparr> \<lparr> mean = Finite mb, stddev = Finite sb \<rparr>
     = \<lparr> diff = Finite (ma - mb), error = Finite (sqrt (ma\<^sup>2 * sa\<^sup>2 + mb\<^sup>2 * sb\<^sup>2)) \<rparr>
   \<and> calcDiffStats \<lparr> mean = Finite (5 / 2), stddev = Finite (1 / 100) \<rparr>
                   \<lparr> mean = Finite 2, stddev = Finite (1 / 100) \<rparr>
     = \<lparr> diff = Finite (1 / 2), error = Finite (sqrt (625 / 1000000 + 4 / 10000)) \<rparr>
   \<and> sqrt (625 / 1000000 + 4 / 10000) \<noteq> sqrt ((1 / 100)\<^sup>2 + (1 / 100)\<^sup>2)
   \<and> diff (calcDiffStats \<lparr> mean = Finite ma, stddev = Finite sa \<rparr>
                         \<lparr> mean = Finite ma, stddev = Finite sa \<rparr>) = Finite 0"
  by (simp add: calcDiffStats_def fsub_Finite propagate_addition_stddev_Finite
        power2_eq_square)
     (simp add: propagate_addition_stddev_def)

section \<open>Current Estimator\<close>

lemma estimateCurrent_Finite:
  assumes "d \<noteq> 0"
  shows "estimateCurrent \<lparr> diff = Finite d, error = Finite e \<rparr> =
           (Finite (d / (2183 / 10) * 1000),
            Finite (d / (2183 / 10) * 1000
                    * sqrt ((e / d)\<^sup>2 + ((2183 / 10 * (5 / 1000)) / (2183 / 10))\<^sup>2)))"
  using assms
  by (simp add: estimateCurrent_def Let_def RESISTOR_def RESISTOR_TOLERANCE_def pow2_Finite)

lemma current_error_bounds:
  "(944 / 10000 :: real) < 10000 / 2183 * sqrt (4 / 10000 + 25 / 1000000)"
  "10000 / 2183 * sqrt (4 / 10000 + 25 / 1000000) < (945 / 10000 :: real)"
proof -
  have lo: "(2061 / 100000 :: real) < sqrt (4 / 10000 + 25 / 1000000)"
    by (rule real_less_rsqrt) (simp add: power2_eq_square)
  have hi: "sqrt (4 / 10000 + 25 / 1000000) < (2062 / 100000 :: real)"
    by (rule real_less_lsqrt) (simp_all add: power2_eq_square)
  have "(944 / 10000 :: real) < 10000 / 2183 * (2061 / 100000)" by simp
  also have "\<dots> < 10000 / 2183 * sqrt (4 / 10000 + 25 / 1000000)"
    using lo by simp
  finally show "(944 / 10000 :: real) < 10000 / 2183 * sqrt (4 / 10000 + 25 / 1000000)" .
  have "10000 / 2183 * sqrt (4 / 10000 + 25 / 1000000) < (10000 / 2183 :: real) * (2062 / 100000)"
    using hi by simp
  also have "\<dots> < 945 / 10000" by simp
  finally show "10000 / 2183 * sqrt (4 / 10000 + 25 / 1000000) < (945 / 10000 :: real)" .
qed

text \<open>
  C2. With the resistance \<open>R = 218.3\<close> and the tolerance \<open>t = 0.005\<close> of the sketch, every
  difference statistic with difference \<open>d\<close> and error \<open>e\<close> gives \<open>current = (d / R) * 1000\<close>
  and \<open>currentError = current * sqrt((e / d)^2 + ((R * t) / R)^2)\<close> in the arithmetic of
  floats; for finite \<open>d \<noteq> 0\<close> and finite \<open>e\<close> these are the real quotient and the real
  square root.
  At \<open>d = 1.0\<close>, \<open>e = 0.02\<close> the current is \<open>10000 / 2183\<close>, between \<open>4.5808\<close> and \<open>4.5809\<close>,
  and the error is \<open>current * sqrt(0.0004 + 0.000025)\<close>, between \<open>0.0944\<close> and \<open>0.0945\<close>.
  (The case \<open>d = 0\<close> is C4.)
\<close>

theorem estimateCurrent_formula:
  assumes "d \<noteq> 0"
  shows "RESISTOR = Finite (2183 / 10) \<and> RESISTOR_TOLERANCE = Finite (5 / 1000)
       \<and> fst (estimateCurrent ds) = fmul (fdiv (diff ds) RESISTOR) (Finite 1000)
       \<and> snd (estimateCurrent ds) =
           fmul (fst (estimateCurrent ds))
             (fsqrt (fadd (pow2 (fdiv (error ds) (diff ds)))
                          (pow2 (fdiv (fmul RESISTOR RESISTOR_TOLERANCE) RESISTOR))))
       \<and> estimateCurrent \<lparr> diff = Finite d, error = Finite e \<rparr> =
           (Finite (d / (2183 / 10) * 1000),
            Finite (d / (2183 / 10) * 1000
                    * sqrt ((e / d)\<^sup>2 + ((2183 / 10 * (5 / 1000)) / (2183 / 10))\<^sup>2)))
       \<and> estimateCurrent \<lparr> diff = Finite 1, error = Finite (2 / 100) \<rparr> =
           (Finite (10000 / 2183), Finite (10000 / 2183 * sqrt (4 / 10000 + 25 / 1000000)))
       \<and> (45808 / 10000 :: real) < 10000 / 2183 \<and> (10000 / 2183 :: real) < 45809 / 10000
       \<and> (944 / 10000 :: real) < 10000 / 2183 * sqrt (4 / 10000 + 25 / 1000000)
       \<and> 10000 / 2183 * sqrt (4 / 10000 + 25 / 1000000) < (945 / 10000 :: real)"
proof -
  have ne: "(1::real) \<noteq> 0" by simp
  have inst: "estimateCurrent \<lparr> diff = Finite 1, error = Finite (2 / 100) \<rparr> =
      (Finite (10000 / 2183), Finite (10000 / 2183 * sqrt (4 / 10000 + 25 / 1000000)))"
    using estimateCurrent_Finite [OF ne, of "2 / 100"] by (simp add: power2_eq_square)
  have c1: "(45808 / 10000 :: real) < 10000 / 2183" by simp
  have c2: "(10000 / 2183 :: real) < 45809 / 10000" by simp
  have g1: "fst (estimateCurrent ds) = fmul (fdiv (diff ds) RESISTOR) (Finite 1000)"
    by (simp add: estimateCurrent_def Let_def)
  have g2: "snd (estimateCurrent ds) =
           fmul (fst (estimateCurrent ds))
             (fsqrt (fadd (pow2 (fdiv (error ds) (diff ds)))
                          (pow2 (fdiv (fmul RESISTOR RESISTOR_TOLERANCE) RESISTOR))))"
    by (simp add: estimateCurrent_def Let_def)
  from estimateCurrent_Finite [OF assms, of e] inst c1 c2 current_error_bounds
       RESISTOR_def RESISTOR_TOLERANCE_def g1 g2
  show ?thesis by blast
qed

theorem estimateCurrent_formula_witness:
  "(2::real) \<noteq> 0
   \<and> estimateCurrent \<lparr> diff = Finite 2, error = Finite (2 / 100) \<rparr> =
           (Finite (2 / (2183 / 10) * 1000),
            Finite (2 / (2183 / 10) * 1000
                    * sqrt ((2 / 100 / 2)\<^sup>2 + ((2183 / 10 * (5 / 1000)) / (2183 / 10))\<^sup>2)))"
proof -
  have ne: "(2::real) \<noteq> 0" by simp
  from estimateCurrent_formula [OF ne, where e = "2 / 100"] ne show ?thesis by blast
qed

section \<open>Facts about the sampler\<close>

lemma sample_loop_closed:
  assumes "samples \<le> 20" "length vals = 20" "adcReads w = k + m"
  shows "sample_loop adc p samples (int m) vals (Finite t) w =
     Some (map (\<lambda>j. if m \<le> j \<and> int j < samples
                      then Some (Finite (of_int (adc p (k + j)))) else vals ! j) [0..<20],
           Finite (t + (\<Sum>j = m..<nat samples. of_int (adc p (k + j)))),
           w\<lparr> adcReads := adcReads w + (nat samples - m), elapsed := elapsed w + 5 * (nat samples - m) \<rparr>)"
  using assms
proof (induction "nat samples - m" arbitrary: m vals t w)
  case 0
  then have "\<not> int m < samples" by linarith
  moreover have "map (\<lambda>j. vals ! j) [0..<20] = vals"
    using 0 by (metis map_nth)
  moreover have "map (\<lambda>j. if m \<le> j \<and> int j < samples
                      then Some (Finite (of_int (adc p (k + j)))) else vals ! j) [0..<20]
      = map (\<lambda>j. vals ! j) [0..<20]"
    using \<open>\<not> int m < samples\<close> by (intro map_cong [OF refl]) auto
  ultimately show ?case using 0
    by (subst sample_loop.simps) simp
next
  case (Suc n)
  then have lt: "int m < samples" and m20: "m < 20" by linarith+
  let ?r = "adc p (k + m)"
  let ?vals1 = "vals[m := Some (Finite (of_int ?r))]"
  let ?w1 = "delay 5 (w\<lparr> adcReads := Suc (adcReads w) \<rparr>)"
  have n: "n = nat samples - Suc m" using Suc by linarith
  have len1: "length ?vals1 = 20" using Suc by simp
  have k1: "adcReads ?w1 = k + Suc m" using Suc.prems by (simp add: delay_def)
  have step: "sample_loop adc p samples (int m) vals (Finite t) w =
        sample_loop adc p samples (int (Suc m)) ?vals1 (Finite (t + of_int ?r)) ?w1"
    using lt m20 Suc.prems
    by (subst sample_loop.simps)
       (simp add: analogRead_def buf_write_def buf_read_def float_of_int_def add.commute)
  have sum_eq: "(\<Sum>j = m..<nat samples. real_of_int (adc p (k + j))) =
      of_int ?r + (\<Sum>j = Suc m..<nat samples. of_int (adc p (k + j)))"
  proof -
    have "m < nat samples" using lt by linarith
    then show ?thesis by (simp add: sum.atLeast_Suc_lessThan)
  qed
  have map_eq: "map (\<lambda>j. if Suc m \<le> j \<and> int j < samples
                      then Some (Finite (of_int (adc p (k + j)))) else ?vals1 ! j) [0..<20]
     = map (\<lambda>j. if m \<le> j \<and> int j < samples
                      then Some (Finite (of_int (adc p (k + j)))) else vals ! j) [0..<20]"
  proof (rule map_cong [OF refl])
    fix j assume "j \<in> set [0..<20]"
    then have j20: "j < 20" by simp
    show "(if Suc m \<le> j \<and> int j < samples
                      then Some (Finite (of_int (adc p (k + j)))) else ?vals1 ! j)
      = (if m \<le> j \<and> int j < samples
                      then Some (Finite (of_int (adc p (k + j)))) else vals ! j)"
    proof (cases "j = m")
      case True
      then show ?thesis using lt Suc.prems m20 by simp
    next
      case False
      then show ?thesis using Suc.prems by auto
    qed
  qed
  have w_eq: "?w1\<lparr> adcReads := adcReads ?w1 + (nat samples - Suc m),
                  elapsed := elapsed ?w1 + 5 * (nat samples - Suc m) \<rparr>
     = w\<lparr> adcReads := adcReads w + (nat samples - m), elapsed := elapsed w + 5 * (nat samples - m) \<rparr>"
    using lt by (simp add: delay_def) 
  show ?case
    unfolding step
    by (subst Suc.hyps(1) [OF n Suc.prems(1) len1 k1]) (simp only: sum_eq map_eq w_eq add.assoc)
qed

lemma sample_loop_overrun:
  assumes "20 < samples" "length vals = 20" "m \<le> 20"
  shows "sample_loop adc p samples (int m) vals tv w = None"
  using assms
proof (induction "20 - m" arbitrary: m vals tv w)
  case 0
  then have "m = 20" by simp
  then show ?case using 0
    by (subst sample_loop.simps) (simp add: analogRead_def buf_write_def)
next
  case (Suc n)
  then have m20: "m < 20" by linarith
  have n: "n = 20 - Suc m" using Suc by linarith
  let ?vals1 = "vals[m := Some (float_of_int (adc p (adcReads w)))]"
  have len1: "length ?vals1 = 20" using Suc by simp
  have "sample_loop adc p samples (int (Suc m)) ?vals1 tv' w' = None" for tv' w'
    using Suc.hyps(1) [OF n Suc.prems(1) len1] m20 by simp
  then show ?case using m20 Suc.prems
    by (subst sample_loop.simps)
       (simp add: analogRead_def buf_write_def buf_read_def add.commute)
qed

lemma variance_loop_closed:
  assumes "samples \<le> 20" "length vals = 20"
    and "\<And>j. j < nat samples \<Longrightarrow> vals ! j = Some (Finite (f j))"
  shows "variance_loop vals (Finite mu) samples (int m) (Finite v) =
      Some (Finite (v + (\<Sum>j = m..<nat samples. (f j - mu) * (f j - mu))))"
  using assms
proof (induction "nat samples - m" arbitrary: m v)
  case 0
  then have "\<not> int m < samples" by linarith
  then show ?case using 0 by (subst variance_loop.simps) simp
next
  case (Suc n)
  then have lt: "int m < samples" and m20: "m < 20" and mn: "m < nat samples" by linarith+
  have n: "n = nat samples - Suc m" using Suc by linarith
  have rd: "buf_read vals (int m) = Some (Finite (f m))"
    using Suc.prems m20 mn by (simp add: buf_read_def)
  have "variance_loop vals (Finite mu) samples (int m) (Finite v) =
     variance_loop vals (Finite mu) samples (int (Suc m)) (Finite (v + (f m - mu) * (f m - mu)))"
    using lt rd by (subst variance_loop.simps) (simp add: fsub_Finite add.commute)
  also have "\<dots> = Some (Finite (v + (f m - mu) * (f m - mu) + (\<Sum>j = Suc m..<nat samples. (f j - mu) * (f j - mu))))"
    using Suc.hyps(1) [OF n Suc.prems(1) Suc.prems(2)] Suc.prems(3) by simp
  also have "\<dots> = Some (Finite (v + (\<Sum>j = m..<nat samples. (f j - mu) * (f j - mu))))"
    using mn by (simp add: sum.atLeast_Suc_lessThan)
  finally show ?case .
qed


lemma sample_buffer:
  assumes "0 \<le> samples" "samples \<le> 20"
  shows "map (\<lambda>j. if int j < samples
                      then Some (Finite (of_int (adc p (k + j)))) else new_buffer ! j) [0..<20]
     = map (Some \<circ> Finite) (readings adc p k (nat samples)) @ replicate (20 - nat samples) None"
proof (rule nth_equalityI)
  show "length (map (\<lambda>j. if int j < samples
                      then Some (Finite (of_int (adc p (k + j)))) else new_buffer ! j) [0..<20])
     = length (map (Some \<circ> Finite) (readings adc p k (nat samples)) @ replicate (20 - nat samples) None)"
    using assms by (simp add: readings_def)
next
  fix i
  assume "i < length (map (\<lambda>j. if int j < samples
                      then Some (Finite (of_int (adc p (k + j)))) else new_buffer ! j) [0..<20])"
  then have i20: "i < 20" by simp
  show "map (\<lambda>j. if int j < samples
                      then Some (Finite (of_int (adc p (k + j)))) else new_buffer ! j) [0..<20] ! i
     = (map (Some \<circ> Finite) (readings adc p k (nat samples)) @ replicate (20 - nat samples) None) ! i"
  proof (cases "int i < samples")
    case True
    then have "i < nat samples" by linarith
    then show ?thesis using i20 True by (simp add: nth_append readings_def)
  next
    case False
    then have "\<not> i < nat samples" by linarith
    then show ?thesis using i20 False assms
      by (simp add: nth_append readings_def new_buffer_def)
  qed
qed

lemma sample_loop_run:
  assumes "0 \<le> samples" "samples \<le> 20"
  shows "sample_loop adc p samples 0 new_buffer (Finite 0) w =
     Some (map (Some \<circ> Finite) (readings adc p (adcReads w) (nat samples))
             @ replicate (20 - nat samples) None,
           Finite (sum_list (readings adc p (adcReads w) (nat samples))),
           w\<lparr> adcReads := adcReads w + nat samples, elapsed := elapsed w + 5 * nat samples \<rparr>)"
proof -
  have len: "length new_buffer = 20" by (simp add: new_buffer_def)
  have sum: "sum_list (readings adc p (adcReads w) (nat samples))
     = (\<Sum>j = 0..<nat samples. real_of_int (adc p (adcReads w + j)))"
    by (simp add: readings_def interv_sum_list_conv_sum_set_nat)
  show ?thesis
    using sample_loop_closed [OF assms(2) len, where w = w and k = "adcReads w" and m = 0 and adc = adc and p = p and t = 0]
    by (simp add: sample_buffer [OF assms] sum)
qed

lemma variance_loop_run:
  assumes "0 \<le> samples" "samples \<le> 20" "length rs = nat samples"
  shows "variance_loop (map (Some \<circ> Finite) rs @ replicate (20 - nat samples) None)
           (Finite mu) samples 0 (Finite 0)
     = Some (Finite (sum_list (map (\<lambda>r. (r - mu)\<^sup>2) rs)))"
proof -
  let ?vals = "map (Some \<circ> Finite) rs @ replicate (20 - nat samples) None"
  have len: "length ?vals = 20" using assms by simp
  have cells: "?vals ! j = Some (Finite (rs ! j))" if "j < nat samples" for j
    using that assms by (simp add: nth_append)
  have "sum_list (map (\<lambda>r. (r - mu)\<^sup>2) rs) = (\<Sum>j = 0..<nat samples. (rs ! j - mu) * (rs ! j - mu))"
    using assms(3) by (simp add: sum_list_sum_nth power2_eq_square)
  then show ?thesis
    using variance_loop_closed [OF assms(2) len cells, where m = 0 and mu = mu and v = 0] by simp
qed

lemma readAnalogToVoltage_closed:
  assumes "1 \<le> samples" "samples \<le> 20"
  shows "readAnalogToVoltage adc p samples w =
     Some (sample_stats (readings adc p (adcReads w) (nat samples)),
           w\<lparr> adcReads := adcReads w + nat samples, elapsed := elapsed w + 5 * nat samples \<rparr>)"
proof -
  let ?rs = "readings adc p (adcReads w) (nat samples)"
  have s0: "0 \<le> samples" using assms by simp
  have len: "length ?rs = nat samples" by (simp add: readings_def)
  have n: "real_of_int samples = real (length ?rs)" using assms len by simp
  have pos: "real_of_int samples \<noteq> 0" using assms by simp
  have mean_v: "fdiv (Finite (sum_list ?rs)) (float_of_int samples) = Finite (arith_mean ?rs)"
    using pos by (simp add: float_of_int_def arith_mean_def n)
  have nonneg: "0 \<le> sum_list (map (\<lambda>r. (r - arith_mean ?rs)\<^sup>2) ?rs) / real_of_int samples"
    using assms by (intro divide_nonneg_nonneg sum_list_nonneg) auto
  have sd: "fsqrt (fdiv (Finite (sum_list (map (\<lambda>r. (r - arith_mean ?rs)\<^sup>2) ?rs))) (float_of_int samples))
      = Finite (pop_stddev ?rs)"
    using pos nonneg by (simp add: float_of_int_def pop_stddev_def n [symmetric])
  show ?thesis
    unfolding readAnalogToVoltage_def
    by (simp add: sample_loop_run [OF s0 assms(2)] mean_v
          variance_loop_run [OF s0 assms(2) len] sd sample_stats_def to_volts_def Let_def)
qed

lemma readAnalogToVoltage_overrun:
  assumes "20 < samples"
  shows "readAnalogToVoltage adc p samples w = None"
proof -
  have "sample_loop adc p samples (int 0) new_buffer (Finite 0) w = None"
    by (rule sample_loop_overrun [OF assms]) (simp_all add: new_buffer_def)
  then show ?thesis by (simp add: readAnalogToVoltage_def)
qed


lemma sum_list_constant:
  assumes "\<forall>r\<in>set rs. r = (v::real)"
  shows "sum_list rs = real (length rs) * v"
  using assms by (induction rs) (simp_all add: algebra_simps)

lemma arith_mean_constant:
  assumes "\<forall>r\<in>set rs. r = v" "rs \<noteq> []"
  shows "arith_mean rs = v"
  using assms by (simp add: arith_mean_def sum_list_constant)

lemma pop_stddev_constant:
  assumes "\<forall>r\<in>set rs. r = v" "rs \<noteq> []"
  shows "pop_stddev rs = 0"
proof -
  have "(r - arith_mean rs)\<^sup>2 = 0" if "r \<in> set rs" for r
    using that assms(1) arith_mean_constant [OF assms] by simp
  then have meq: "map (\<lambda>r. (r - arith_mean rs)\<^sup>2) rs = map (\<lambda>r. 0) rs"
    by (rule map_cong [OF refl])
  have "sum_list (map (\<lambda>r. (r - arith_mean rs)\<^sup>2) rs) = sum_list (map (\<lambda>r. 0::real) rs)"
    by (simp only: meq)
  also have "\<dots> = 0" by simp
  finally show ?thesis by (simp add: pop_stddev_def)
qed

section \<open>Analog Sampler: the statistics\<close>

text \<open>
  C3, as amended. For every sample count \<open>n\<close> with \<open>1 \<le> n \<le> 20\<close> (the size of the
  buffer) and whatever the \<open>n\<close> raw readings are, \<open>readAnalogToVoltage\<close> returns the
  arithmetic mean of the readings mapped from \<open>[0, 1023]\<close> to \<open>[0, 5.0]\<close> volts and their
  population standard deviation (divisor \<open>n\<close>) mapped the same way; when all readings are
  the same value \<open>v\<close>, the standard deviation is \<open>0\<close> and the mean is \<open>v\<close> mapped to volts.
\<close>

theorem readAnalogToVoltage_stats:
  assumes "1 \<le> n" and "n \<le> 20"
  shows "readAnalogToVoltage adc p n w =
           Some (\<lparr> mean = float_map (Finite (arith_mean (readings adc p (adcReads w) (nat n))))
                            (Finite 0) (Finite 1023) (Finite 0) (Finite 5),
                    stddev = float_map (Finite (pop_stddev (readings adc p (adcReads w) (nat n))))
                            (Finite 0) (Finite 1023) (Finite 0) (Finite 5) \<rparr>,
                 w\<lparr> adcReads := adcReads w + nat n, elapsed := elapsed w + 5 * nat n \<rparr>)
       \<and> ((\<forall>r\<in>set (readings adc p (adcReads w) (nat n)). r = v) \<longrightarrow>
            readAnalogToVoltage adc p n w =
              Some (\<lparr> mean = float_map (Finite v) (Finite 0) (Finite 1023) (Finite 0) (Finite 5),
                       stddev = Finite 0 \<rparr>,
                    w\<lparr> adcReads := adcReads w + nat n, elapsed := elapsed w + 5 * nat n \<rparr>))"
proof -
  let ?rs = "readings adc p (adcReads w) (nat n)"
  have ne: "?rs \<noteq> []" using assms by (simp add: readings_def)
  have zero: "float_map (Finite 0) (Finite 0) (Finite 1023) (Finite 0) (Finite 5) = Finite 0"
    by (simp add: float_map_Finite)
  show ?thesis
    by (simp add: readAnalogToVoltage_closed [OF assms] sample_stats_def to_volts_def
          arith_mean_constant [OF _ ne] pop_stddev_constant [OF _ ne] zero)
qed

theorem readAnalogToVoltage_stats_witness:
  "(1::int) \<le> 3 \<and> (3::int) \<le> 20
   \<and> readAnalogToVoltage (\<lambda>p k. 512) A0 3 power_up =
       Some (\<lparr> mean = float_map (Finite 512) (Finite 0) (Finite 1023) (Finite 0) (Finite 5),
                stddev = Finite 0 \<rparr>,
             power_up\<lparr> adcReads := 3, elapsed := 15 \<rparr>)"
proof -
  have c: "\<forall>r\<in>set (readings (\<lambda>p k. 512) A0 (adcReads power_up) (nat 3)). r = 512"
    by (simp add: readings_def)
  have n: "(1::int) \<le> 3" "(3::int) \<le> 20" by simp_all
  from readAnalogToVoltage_stats [OF n, of "\<lambda>p k. 512" A0 power_up 512] c
  have "readAnalogToVoltage (\<lambda>p k. 512) A0 3 power_up =
      Some (\<lparr> mean = float_map (Finite 512) (Finite 0) (Finite 1023) (Finite 0) (Finite 5),
                stddev = Finite 0 \<rparr>,
            power_up\<lparr> adcReads := adcReads power_up + nat 3, elapsed := elapsed power_up + 5 * nat 3 \<rparr>)"
    by blast
  then show ?thesis by (simp add: power_up_def)
qed

text \<open>
  C3 as stated, for every \<open>n \<ge> 1\<close>, fails: with 21 samples the sampler writes past its
  buffer of 20 cells and returns no statistics.
\<close>

theorem readAnalogToVoltage_21_samples:
  "readAnalogToVoltage (\<lambda>p k. 512) A0 21 power_up = None"
  by (simp add: readAnalogToVoltage_overrun)

section \<open>Analog Sampler: the buffer\<close>

text \<open>
  C10. The sampler keeps its raw readings in a buffer of 20 cells. For \<open>1 \<le> n \<le> 20\<close> the
  sampling loop writes exactly the cells \<open>0 .. n - 1\<close> and leaves the others untouched, the
  variance loop reads those cells back, and neither leaves the buffer: the sampler returns
  statistics. Nothing in the code checks \<open>n \<le> 20\<close>: from 21 samples on, the write leaves
  the buffer.
\<close>

theorem sampler_buffer_in_bounds:
  assumes "1 \<le> n" and "n \<le> 20"
  shows "sample_loop adc p n 0 new_buffer (Finite 0) w =
           Some (map (Some \<circ> Finite) (readings adc p (adcReads w) (nat n)) @ replicate (20 - nat n) None,
                 Finite (sum_list (readings adc p (adcReads w) (nat n))),
                 w\<lparr> adcReads := adcReads w + nat n, elapsed := elapsed w + 5 * nat n \<rparr>)
       \<and> variance_loop (map (Some \<circ> Finite) (readings adc p (adcReads w) (nat n)) @ replicate (20 - nat n) None)
           (Finite mu) n 0 (Finite 0)
           = Some (Finite (sum_list (map (\<lambda>r. (r - mu)\<^sup>2) (readings adc p (adcReads w) (nat n)))))
       \<and> readAnalogToVoltage adc p n w \<noteq> None
       \<and> readAnalogToVoltage adc p (21 + int k) w = None"
proof -
  have n0: "0 \<le> n" using assms by simp
  have len: "length (readings adc p (adcReads w) (nat n)) = nat n" by (simp add: readings_def)
  show ?thesis
    by (simp add: sample_loop_run [OF n0 assms(2)] variance_loop_run [OF n0 assms(2) len]
          readAnalogToVoltage_closed [OF assms] readAnalogToVoltage_overrun)
qed

theorem sampler_buffer_in_bounds_witness:
  "(1::int) \<le> 10 \<and> (10::int) \<le> 20
   \<and> readAnalogToVoltage (\<lambda>p k. 512) A1 10 power_up \<noteq> None
   \<and> readAnalogToVoltage (\<lambda>p k. 512) A1 21 power_up = None"
  using sampler_buffer_in_bounds [of 10 "\<lambda>p k. 512" A1 power_up 0 0]
  by simp

section \<open>Facts about the printed text\<close>

lemma digit_char_is_digit: "d < 10 \<Longrightarrow> is_digit (digit_char d)"
proof -
  assume "d < 10"
  then have "d \<in> {0, 1, 2, 3, 4, 5, 6, 7, 8, 9}" by auto
  then show ?thesis by (auto simp: is_digit_def digit_char_def)
qed

lemma printNumber_digits: "list_all is_digit (printNumber n)"
proof (induction n rule: printNumber.induct)
  case (1 n)
  show ?case
  proof (cases "n < 10")
    case True
    then show ?thesis by (subst printNumber.simps) (simp add: digit_char_is_digit)
  next
    case False
    then show ?thesis using 1
      by (subst printNumber.simps) (simp add: digit_char_is_digit)
  qed
qed

lemma printNumber_single: "n < 10 \<Longrightarrow> length (printNumber n) = 1"
  by (subst printNumber.simps) simp

lemma frac_digits_digits: "list_all is_digit (frac_digits d r)"
proof (induction d arbitrary: r)
  case 0
  show ?case by (subst frac_digits.simps) simp
next
  case (Suc d)
  show ?case by (subst frac_digits.simps) (simp add: Let_def printNumber_digits Suc)
qed

lemma frac_digits_length:
  assumes "0 \<le> r" "r < 1"
  shows "length (frac_digits d r) = d"
  using assms
proof (induction d arbitrary: r)
  case 0
  show ?case by (subst frac_digits.simps) simp
next
  case (Suc d)
  let ?t = "nat \<lfloor>r * 10\<rfloor>"
  have t: "?t < 10" using Suc.prems by (simp add: nat_less_iff floor_less_iff)
  have r0: "0 \<le> r * 10 - real ?t" using Suc.prems by simp
  have r1: "r * 10 - real ?t < 1" using Suc.prems by simp linarith
  show ?case
    by (subst frac_digits.simps) (simp add: Let_def printNumber_single [OF t] Suc.IH [OF r0 r1])
qed


lemma is_digit_not_point: "is_digit c \<Longrightarrow> c \<noteq> CHR ''.''"
  by (auto simp: is_digit_def)

lemma is_digit_num_char: "is_digit c \<Longrightarrow> num_char c"
  by (auto simp: is_digit_def num_char_def)

lemma digits_no_point: "list_all is_digit s \<Longrightarrow> CHR ''.'' \<notin> set s"
  by (induction s) (simp_all add: is_digit_not_point [symmetric])

lemma digits_num_chars: "list_all is_digit s \<Longrightarrow> list_all num_char s"
  by (induction s) (simp_all add: is_digit_num_char)

lemma frac_part_point:
  assumes "CHR ''.'' \<notin> set ip"
  shows "frac_part (ip @ ''.'' @ fr) = fr"
proof -
  have "dropWhile (\<lambda>c. c \<noteq> CHR ''.'') (ip @ ''.'' @ fr) = dropWhile (\<lambda>c. c \<noteq> CHR ''.'') (''.'' @ fr)"
    using assms by (intro dropWhile_append2) auto
  then show ?thesis by (simp add: frac_part_def)
qed

lemma fixed_decimal_parts:
  assumes "0 < d"
  shows "\<exists>r. 0 \<le> r \<and> r < 1 \<and>
           fixed_decimal x d =
             ((if x < 0 then ''-'' else []) @ printNumber (nat \<lfloor>\<bar>x\<bar> + (1 / 2) / 10 ^ d\<rfloor>))
               @ ''.'' @ frac_digits d r"
proof -
  let ?number = "(if x < 0 then - x else x) + (1 / 2) / 10 ^ d"
  have abs: "(if x < 0 then - x else x) = \<bar>x\<bar>" by simp
  have nn: "0 \<le> ?number" by simp
  let ?r = "?number - real (nat \<lfloor>?number\<rfloor>)"
  have r0: "0 \<le> ?r" using nn by (simp del: of_nat_nat add: of_nat_nat [of "\<lfloor>?number\<rfloor>"] )
  have r1: "?r < 1" using nn by (simp del: of_nat_nat add: of_nat_nat [of "\<lfloor>?number\<rfloor>"]) linarith
  have "fixed_decimal x d =
      ((if x < 0 then ''-'' else []) @ printNumber (nat \<lfloor>?number\<rfloor>)) @ ''.'' @ frac_digits d ?r"
    using assms by (simp add: fixed_decimal_def Let_def)
  then show ?thesis using r0 r1 unfolding abs by blast
qed

lemma fixed_decimal_frac:
  assumes "0 < d"
  shows "has_frac_digits d (fixed_decimal x d)"
proof -
  from fixed_decimal_parts [OF assms, of x] obtain r where r: "0 \<le> r" "r < 1"
    and eq: "fixed_decimal x d =
             ((if x < 0 then ''-'' else []) @ printNumber (nat \<lfloor>\<bar>x\<bar> + (1 / 2) / 10 ^ d\<rfloor>))
               @ ''.'' @ frac_digits d r"
    by blast
  have np: "CHR ''.'' \<notin> set ((if x < 0 then ''-'' else []) @ printNumber (nat \<lfloor>\<bar>x\<bar> + (1 / 2) / 10 ^ d\<rfloor>))"
    using digits_no_point [OF printNumber_digits] by simp
  have fp: "frac_part (fixed_decimal x d) = frac_digits d r"
    unfolding eq by (rule frac_part_point [OF np])
  have "CHR ''.'' \<in> set (fixed_decimal x d)" unfolding eq by simp
  then show ?thesis
    by (simp add: has_frac_digits_def fp frac_digits_length [OF r] frac_digits_digits)
qed

lemma has_frac_digits_unique: "has_frac_digits m s \<Longrightarrow> has_frac_digits n s \<Longrightarrow> m = n"
  unfolding has_frac_digits_def by blast

lemma fixed_decimal_num_chars: "list_all num_char (fixed_decimal x d)"
  by (simp add: fixed_decimal_def Let_def digits_num_chars printNumber_digits frac_digits_digits)
     (simp add: num_char_def)

lemma printFloat_num_chars: "list_all num_char (printFloat v d)"
  by (cases v) (simp_all add: fixed_decimal_num_chars, simp_all add: num_char_def)

lemma num_char_plain: "num_char c \<Longrightarrow> c \<noteq> CHR '','' \<and> c \<noteq> CHR 0x0D \<and> c \<noteq> CHR 0x0A"
  unfolding num_char_def by (elim disjE | simp)+

lemma num_chars_plain: "list_all num_char f \<Longrightarrow> plain_field f"
  by (induction f) (auto simp: plain_field_def dest: num_char_plain)


lemma printFloat_frac:
  assumes "- 4294967040 \<le> v" "v \<le> 4294967040"
  shows "has_frac_digits 4 (printFloat (Finite v) 4)"
proof -
  have "printFloat (Finite v) 4 = fixed_decimal v 4" using assms by simp
  then show ?thesis by (simp only: fixed_decimal_frac [of 4 v, simplified])
qed

lemma printDataCSVRow_closed:
  "printDataCSVRow (Finite x) a0 a1 a2 a0_a1 a1_a2 current currentError w =
     Some (Serial_print
            (join_commas (csv_row x a0 a1 a2 a0_a1 a1_a2 current currentError) @ CRLF) w)"
  by (simp add: printDataCSVRow_def printSerialCSV_def Serial_println_def Serial_print_def
        csv_row_def)

lemma csv_row_plain: "list_all plain_field (csv_row x a0 a1 a2 a0_a1 a1_a2 current currentError)"
  by (simp add: csv_row_def num_chars_plain printFloat_num_chars fixed_decimal_num_chars)


section \<open>Facts about the ramp\<close>

lemma setDACVoltageByStep_closed:
  assumes "0 \<le> step" "step < 51"
  shows "setDACVoltageByStep step w = Some (dac_setVoltage (dac_code step) w)"
proof -
  let ?v = "real_of_int step * 4095 / 51"
  have fm: "float_map (float_of_int step) (Finite 0) (Finite 51) (Finite 0) (Finite 4095) = Finite ?v"
    by (simp add: float_map_Finite float_of_int_def)
  have lo: "0 \<le> ?v" using assms by simp
  have "real_of_int step \<le> 50" using assms by simp
  then have hi: "?v < 32768" by simp
  have "?v = real_of_int (step * 4095) / real_of_int 51" by simp
  then have fl: "\<lfloor>?v\<rfloor> = step * 4095 div 51"
    by (simp only: floor_divide_of_int_eq)
  have "int_of_float (Finite ?v) = Some (dac_code step)"
    using lo hi fl by (simp add: dac_code_def)
  then show ?thesis by (simp add: setDACVoltageByStep_def fm)
qed

lemma print_dashes_closed: "print_dashes n w = Serial_print (replicate n (CHR ''-'')) w"
proof (induction n arbitrary: w)
  case 0
  show ?case by (simp add: Serial_print_def)
next
  case (Suc n)
  show ?case by (simp add: Suc Serial_print_def replicate_append_same)
qed

lemma acquireAndPrintData_closed:
  assumes "0 \<le> step" "step < 51"
  shows "acquireAndPrintData adc step w =
     Some (w\<lparr> serial := serial w @ step_row adc (adcReads w) step,
              dacWrites := dacWrites w @ [dac_code step],
              adcReads := adcReads w + 30,
              elapsed := elapsed w + 250 \<rparr>)"
proof -
  have n: "(1::int) \<le> 10" "(10::int) \<le> 20" by simp_all
  have ov: "fdiv (float_of_int step) (Finite 10) = Finite (of_int step / 10)"
    by (simp add: float_of_int_def)
  show ?thesis
    unfolding acquireAndPrintData_def
    by (simp add: ov setDACVoltageByStep_closed [OF assms] readA0_def readA1_def readA2_def
          readAnalogToVoltage_closed [OF n] printDataCSVRow_closed step_row_def Let_def
          split_beta dac_setVoltage_def delay_def Serial_print_def add.assoc)
qed

lemma ramp_closed:
  assumes "m \<le> 51" "adcReads w = k + 30 * m"
  shows "ramp adc (int m) w =
     Some (w\<lparr> serial := serial w @ concat (map (\<lambda>i. step_row adc (k + 30 * i) (int i)) [m..<51]),
              dacWrites := dacWrites w @ map (\<lambda>i. dac_code (int i)) [m..<51],
              adcReads := adcReads w + 30 * (51 - m),
              elapsed := elapsed w + 250 * (51 - m) \<rparr>)"
  using assms
proof (induction "51 - m" arbitrary: m w)
  case 0
  then have "m = 51" by simp
  then show ?case by (subst ramp.simps) simp
next
  case (Suc n)
  then have m: "m < 51" by linarith
  have n: "n = 51 - Suc m" using Suc by linarith
  let ?w1 = "w\<lparr> serial := serial w @ step_row adc (adcReads w) (int m),
              dacWrites := dacWrites w @ [dac_code (int m)],
              adcReads := adcReads w + 30,
              elapsed := elapsed w + 250 \<rparr>"
  have st: "acquireAndPrintData adc (int m) w = Some ?w1"
    using m by (intro acquireAndPrintData_closed) simp_all
  have k1: "adcReads ?w1 = k + 30 * Suc m" using Suc.prems by simp
  have up: "[m..<51] = m # [Suc m..<51]" using m by (simp add: upt_conv_Cons)
  have d: "51 - m = Suc (51 - Suc m)" using m by simp
  have "ramp adc (int m) w = ramp adc (int (Suc m)) ?w1"
    using m st by (subst ramp.simps) (simp add: add.commute)
  then show ?case
    unfolding up d
    using Suc.hyps(1) [OF n _ k1] m Suc.prems by simp
qed


lemma printHeader_closed:
  "printHeader w = Serial_print (separator_line @ device_line @ announce_line @ header_line) w"
  by (simp add: printHeader_def print_dashes_closed Serial_println_def Serial_print_def
        separator_line_def device_line_def announce_line_def header_line_def)

lemma setup_fn_closed: "setup_fn w = Serial_print (separator_line @ device_line) w"
  by (simp add: setup_fn_def print_dashes_closed Serial_println_def Serial_print_def
        separator_line_def device_line_def)

lemma loop_first:
  assumes "\<not> hasRun w"
  shows "loop adc w =
     Some (w\<lparr> hasRun := True,
              serial := serial w @ separator_line @ device_line @ announce_line @ header_line
                          @ concat (data_rows adc (adcReads w)) @ finished_line,
              dacWrites := dacWrites w @ map (\<lambda>i. dac_code (int i)) [0..<51],
              adcReads := adcReads w + 1530,
              elapsed := elapsed w + 12750 \<rparr>)"
proof -
  let ?w0 = "printHeader w"
  have k: "adcReads ?w0 = adcReads w + 30 * 0"
    by (simp add: printHeader_closed Serial_print_def)
  have z: "(0::nat) \<le> 51" by simp
  have r: "ramp adc 0 ?w0 =
     Some (?w0\<lparr> serial := serial ?w0 @ concat (data_rows adc (adcReads w)),
              dacWrites := dacWrites ?w0 @ map (\<lambda>i. dac_code (int i)) [0..<51],
              adcReads := adcReads ?w0 + 30 * (51 - 0),
              elapsed := elapsed ?w0 + 250 * (51 - 0) \<rparr>)"
    using ramp_closed [OF z k, of adc] by (simp add: data_rows_def)
  show ?thesis
    using assms unfolding loop_def r
    by (simp add: printHeader_closed Serial_println_def Serial_print_def finished_line_def)
qed

lemma loop_done: "hasRun w \<Longrightarrow> loop adc w = Some w"
  by (simp add: loop_def)

lemma loops_done: "hasRun w \<Longrightarrow> loops adc n w = Some w"
  by (induction n) (simp_all add: loop_done)

lemma run_closed:
  "run adc (Suc n) =
     Some \<lparr> hasRun = True,
            serial = separator_line @ device_line @ separator_line @ device_line
                       @ announce_line @ header_line @ concat (data_rows adc 0) @ finished_line,
            dacWrites = map (\<lambda>i. dac_code (int i)) [0..<51],
            adcReads = 1530,
            elapsed = 12750 \<rparr>"
proof -
  let ?w0 = "setup_fn power_up"
  have nr: "\<not> hasRun ?w0" by (simp add: setup_fn_closed Serial_print_def power_up_def)
  have "loops adc n w = Some w" if "hasRun w" for w
    using that by (rule loops_done)
  then show ?thesis
    unfolding run_def
    by (simp add: loop_first [OF nr]) (simp add: setup_fn_closed Serial_print_def power_up_def)
qed


lemma join_commas_plain:
  assumes "list_all plain_field fs"
  shows "CHR 0x0D \<notin> set (join_commas fs) \<and> CHR 0x0A \<notin> set (join_commas fs)
       \<and> commas (join_commas fs) = length fs - 1"
  using assms
  by (induction fs rule: join_commas.induct) (simp_all add: plain_field_def commas_def)

lemma is_line_CRLF:
  assumes "CHR 0x0D \<notin> set body" "CHR 0x0A \<notin> set body"
  shows "is_line (body @ CRLF)"
  using assms by (simp add: is_line_def CRLF_def)

lemma length_csv_row: "length (csv_row x a0 a1 a2 a0_a1 a1_a2 current currentError) = 13"
  by (simp add: csv_row_def)

lemma step_row_line: "is_line (step_row adc k step) \<and> commas (step_row adc k step) = 12"
proof -
  obtain fs where fs: "step_row adc k step = join_commas fs @ CRLF"
    "list_all plain_field fs" "length fs = 13"
    by (simp add: step_row_def Let_def csv_row_plain length_csv_row)
  from join_commas_plain [OF fs(2)] fs(3)
  have "CHR 0x0D \<notin> set (join_commas fs)" "CHR 0x0A \<notin> set (join_commas fs)"
    "commas (join_commas fs) = 12" by simp_all
  then show ?thesis
    unfolding fs(1) by (simp add: is_line_CRLF) (simp add: commas_def CRLF_def)
qed

lemma data_rows_lines:
  "length (data_rows adc k) = 51
   \<and> list_all (\<lambda>r. is_line r \<and> commas r = 12) (data_rows adc k)"
  by (simp add: data_rows_def list_all_iff step_row_line)

lemma estimateCurrent_zero:
  assumes "diff a0_a1 = Finite 0"
  shows "estimateCurrent a0_a1 = (Finite 0, NaN)"
  using assms
  by (cases "error a0_a1")
     (simp_all add: estimateCurrent_def Let_def RESISTOR_def RESISTOR_TOLERANCE_def pow2_def)

lemmas print_eval = fixed_decimal_def Let_def digit_char_def printNumber.simps frac_digits.simps

lemma dac_code_below:
  assumes "i < 51"
  shows "dac_code (int i) \<le> 4014"
proof -
  have "int i * 4095 \<le> 50 * 4095" using assms by simp
  then have "int i * 4095 div 51 \<le> 50 * 4095 div 51" by (rule zdiv_mono1) simp
  then show ?thesis by (simp add: dac_code_def)
qed

section \<open>Record Emitter: the row\<close>

text \<open>
  C9, as amended. Every data row is 13 fields joined by commas and ended by a line break
  (CR LF), in the order output voltage, the mean and standard deviation of channels 0, 1
  and 2, difference and error of (0, 1), difference and error of (1, 2), current and
  current error; no field holds a comma or a line break. The twelve fields after the
  first are printed with precision 4: a finite value between \<open>-4294967040\<close> and
  \<open>4294967040\<close> has exactly 4 digits after the decimal point. The first field, the output
  voltage, is printed through \<open>String(outputVoltage)\<close> and has exactly 2 digits after the
  decimal point.
\<close>

theorem printDataCSVRow_fields:
  "printDataCSVRow (Finite x) a0 a1 a2 a0_a1 a1_a2 current currentError w =
     Some (Serial_print
            (join_commas (csv_row x a0 a1 a2 a0_a1 a1_a2 current currentError) @ CRLF) w)
   \<and> csv_row x a0 a1 a2 a0_a1 a1_a2 current currentError =
       [fixed_decimal x 2,
        printFloat (mean a0) 4, printFloat (stddev a0) 4,
        printFloat (mean a1) 4, printFloat (stddev a1) 4,
        printFloat (mean a2) 4, printFloat (stddev a2) 4,
        printFloat (diff a0_a1) 4, printFloat (error a0_a1) 4,
        printFloat (diff a1_a2) 4, printFloat (error a1_a2) 4,
        printFloat current 4, printFloat currentError 4]
   \<and> list_all plain_field (csv_row x a0 a1 a2 a0_a1 a1_a2 current currentError)
   \<and> String_float (Finite x) = Some (fixed_decimal x 2)
   \<and> has_frac_digits 2 (fixed_decimal x 2)
   \<and> (- 4294967040 \<le> v \<and> v \<le> 4294967040 \<longrightarrow> has_frac_digits 4 (printFloat (Finite v) 4))"
proof -
  have two: "has_frac_digits 2 (fixed_decimal x 2)"
    by (rule fixed_decimal_frac) simp
  show ?thesis
    using two printFloat_frac [of v]
    by (simp add: printDataCSVRow_closed csv_row_plain) (simp add: csv_row_def)
qed

theorem printDataCSVRow_fields_witness:
  "- 4294967040 \<le> (5 / 2 :: real) \<and> (5 / 2 :: real) \<le> 4294967040
   \<and> has_frac_digits 4 (printFloat (Finite (5 / 2)) 4)
   \<and> printFloat (Finite (5 / 2)) 4 = ''2.5000''"
proof -
  have b: "- 4294967040 \<le> (5 / 2 :: real) \<and> (5 / 2 :: real) \<le> 4294967040" by simp
  have e: "printFloat (Finite (5 / 2)) 4 = ''2.5000''" by (simp add: print_eval)
  from printDataCSVRow_fields [where v = "5 / 2"] b e
  show ?thesis by blast
qed

text \<open>
  C9 as stated, every numeric field with 4 fractional digits, fails on the first field:
  the row of output voltage \<open>0.1\<close> begins with \<open>0.10\<close>.
\<close>

theorem printDataCSVRow_first_field:
  "printDataCSVRow (Finite (1 / 10))
     \<lparr> mean = Finite (5 / 2), stddev = Finite (1 / 100) \<rparr>
     \<lparr> mean = Finite 2, stddev = Finite (1 / 100) \<rparr>
     \<lparr> mean = Finite 0, stddev = Finite 0 \<rparr>
     \<lparr> diff = Finite (1 / 2), error = Finite (32 / 1000) \<rparr>
     \<lparr> diff = Finite 2, error = Finite (2 / 100) \<rparr>
     (Finite (22904 / 10000)) (Finite (1466 / 10000)) power_up
   = Some (power_up\<lparr> serial :=
       ''0.10,2.5000,0.0100,2.0000,0.0100,0.0000,0.0000,0.5000,0.0320,2.0000,0.0200,2.2904,0.1466''
         @ CRLF \<rparr>)
   \<and> \<not> has_frac_digits 4 ''0.10''"
  by (simp add: printDataCSVRow_closed csv_row_def Serial_print_def power_up_def print_eval
        has_frac_digits_def frac_part_def)

section \<open>Ramp Controller: the DAC code of a step\<close>

text \<open>
  C7. Step \<open>i\<close> of the ramp prints the output voltage \<open>i / 10.0\<close> and commands the DAC
  code \<open>float_map(i, 0, 51, 0, 4095)\<close> truncated, that is \<open>i * 4095 div 51\<close>. At the last
  step, \<open>i = 50\<close>, the printed voltage is \<open>5.0\<close> and the code is \<open>4014\<close>: over a whole run
  no code exceeds \<open>4014\<close> and the full-scale code \<open>4095\<close> is never commanded.
\<close>

theorem ramp_top_code:
  "setDACVoltageByStep 50 w = Some (dac_setVoltage 4014 w)
   \<and> fdiv (float_of_int 50) (Finite 10) = Finite 5
   \<and> map_option dacWrites (run adc (Suc n)) = Some (map (\<lambda>i. int i * 4095 div 51) [0..<51])
   \<and> list_all (\<lambda>c. c \<le> 4014) (map (\<lambda>i. int i * 4095 div 51) [0..<51])
   \<and> 4095 \<notin> set (map (\<lambda>i. int i * 4095 div 51) [0..<51])"
proof -
  have top: "setDACVoltageByStep 50 w = Some (dac_setVoltage 4014 w)"
    using setDACVoltageByStep_closed [of 50 w] by (simp add: dac_code_def)
  have all: "list_all (\<lambda>c. c \<le> 4014) (map (\<lambda>i. int i * 4095 div 51) [0..<51])"
    using dac_code_below by (simp add: list_all_iff dac_code_def)
  have "c \<noteq> 4095" if "c \<in> set (map (\<lambda>i. int i * 4095 div 51) [0..<51])" for c
  proof -
    from that obtain i where "i < 51" "c = dac_code (int i)" by (auto simp: dac_code_def)
    then show ?thesis using dac_code_below [of i] by simp
  qed
  then have none: "4095 \<notin> set (map (\<lambda>i. int i * 4095 div 51) [0..<51])" by blast
  have w: "map_option dacWrites (run adc (Suc n)) = Some (map (\<lambda>i. int i * 4095 div 51) [0..<51])"
    by (simp add: run_closed dac_code_def)
  have v: "fdiv (float_of_int 50) (Finite 10) = Finite 5" by (simp add: float_of_int_def)
  from top v w all none show ?thesis by blast
qed

section \<open>Ramp Controller: one run\<close>

text \<open>
  C5. Called in the state where the ramp has not run, \<open>loop\<close> runs the whole ramp (51 more
  codes written to the DAC), ends the output with the completion line \<open>Finished\<close> and sets
  \<open>hasRun\<close>. In the state it returns, every further call of \<open>loop\<close>, any number of them,
  returns the very same state: no further DAC write, serial character, ADC conversion or
  delay. So the sketch after any number of calls of \<open>loop\<close> is where it was after the first.
\<close>

theorem loop_runs_once:
  assumes "\<not> hasRun w"
  shows "\<exists>w1. loop adc w = Some w1 \<and> hasRun w1
           \<and> dacWrites w1 = dacWrites w @ map dac_code (map int [0..<51])
           \<and> length (dacWrites w1) = length (dacWrites w) + 51
           \<and> suffix finished_line (serial w1)
           \<and> loop adc w1 = Some w1
           \<and> (\<forall>n. loops adc n w1 = Some w1)
           \<and> run adc (Suc n) = run adc (Suc 0)"
proof -
  let ?w1 = "w\<lparr> hasRun := True,
              serial := serial w @ separator_line @ device_line @ announce_line @ header_line
                          @ concat (data_rows adc (adcReads w)) @ finished_line,
              dacWrites := dacWrites w @ map (\<lambda>i. dac_code (int i)) [0..<51],
              adcReads := adcReads w + 1530,
              elapsed := elapsed w + 12750 \<rparr>"
  have h: "hasRun ?w1" by simp
  have sfx: "suffix finished_line (serial ?w1)"
    by (simp add: suffix_def)
  have "loop adc w = Some ?w1" by (rule loop_first [OF assms])
  moreover have "dacWrites ?w1 = dacWrites w @ map dac_code (map int [0..<51])" by simp
  moreover have "length (dacWrites ?w1) = length (dacWrites w) + 51" by simp
  moreover have "loop adc ?w1 = Some ?w1" by (rule loop_done [OF h])
  moreover have "\<forall>n. loops adc n ?w1 = Some ?w1" using loops_done [OF h] by blast
  moreover have "run adc (Suc n) = run adc (Suc 0)" by (simp only: run_closed)
  ultimately show ?thesis using h sfx by blast
qed

theorem loop_runs_once_witness:
  "\<not> hasRun power_up
   \<and> (\<exists>w1. loop (\<lambda>p k. 512) power_up = Some w1 \<and> hasRun w1
           \<and> length (dacWrites w1) = 51
           \<and> suffix finished_line (serial w1)
           \<and> loops (\<lambda>p k. 512) 7 w1 = Some w1)"
proof -
  have nr: "\<not> hasRun power_up" by (simp add: power_up_def)
  have d: "dacWrites power_up = []" by (simp add: power_up_def)
  from loop_runs_once [OF nr, of "\<lambda>p k. 512"] obtain w1 where
    "loop (\<lambda>p k. 512) power_up = Some w1" "hasRun w1"
    "length (dacWrites w1) = length (dacWrites power_up) + 51"
    "suffix finished_line (serial w1)" "\<forall>n. loops (\<lambda>p k. 512) n w1 = Some w1"
    by blast
  then show ?thesis using nr d by auto
qed

section \<open>The output stream of a run\<close>

text \<open>
  C6, as amended. The serial output of a run (\<open>setup\<close> and one or more calls of \<open>loop\<close>)
  begins with the separator line of 35 dashes and the device line, and ends with, in
  order, the line \<open>Outputting voltage series.\<close>, the header line naming the columns,
  exactly 51 data rows and the completion line. The rows are 51 whatever the ADC returns:
  each is one line with 12 commas, the row of its step.
\<close>

theorem run_output_stream:
  "\<exists>w pre. run adc (Suc n) = Some w
      \<and> serial w = separator_line @ device_line @ pre @ announce_line @ header_line
                     @ concat (data_rows adc 0) @ finished_line
      \<and> separator_line = replicate 35 (CHR ''-'') @ CRLF
      \<and> length (data_rows adc 0) = 51
      \<and> list_all (\<lambda>r. is_line r \<and> commas r = 12) (data_rows adc 0)
      \<and> data_rows adc 0 = map (\<lambda>i. step_row adc (30 * i) (int i)) [0..<51]"
proof -
  let ?w = "\<lparr> hasRun = True,
            serial = separator_line @ device_line @ separator_line @ device_line
                       @ announce_line @ header_line @ concat (data_rows adc 0) @ finished_line,
            dacWrites = map (\<lambda>i. dac_code (int i)) [0..<51],
            adcReads = 1530,
            elapsed = 12750 \<rparr>"
  have r: "run adc (Suc n) = Some ?w" by (rule run_closed)
  have s: "serial ?w = separator_line @ device_line @ (separator_line @ device_line)
                     @ announce_line @ header_line @ concat (data_rows adc 0) @ finished_line"
    by simp
  have d: "data_rows adc 0 = map (\<lambda>i. step_row adc (30 * i) (int i)) [0..<51]"
    by (simp add: data_rows_def)
  from r s d data_rows_lines [of adc 0] separator_line_def show ?thesis by blast
qed

text \<open>
  C6 as stated fails: the stream is not separator, device line, header, rows, completion.
  The header routine prints the separator and the device line a second time, and the line
  \<open>Outputting voltage series.\<close> stands before the header line.
\<close>

theorem run_output_not_as_claimed:
  "map_option serial (run (\<lambda>p k. 512) (Suc 0)) =
     Some (separator_line @ device_line @ separator_line @ device_line @ announce_line
             @ header_line @ concat (data_rows (\<lambda>p k. 512) 0) @ finished_line)
   \<and> map_option
       (\<lambda>w. serial w = separator_line @ device_line @ header_line
                          @ concat (data_rows (\<lambda>p k. 512) 0) @ finished_line)
       (run (\<lambda>p k. 512) (Suc 0)) = Some False"
proof -
  have "(35::nat) = Suc 34" by simp
  then have h: "separator_line = CHR ''-'' # replicate 34 (CHR ''-'') @ CRLF"
    by (simp only: separator_line_def replicate.simps append_Cons)
  have ne: "separator_line @ device_line @ announce_line @ header_line @ rest
           \<noteq> header_line @ rest'" for rest rest'
    by (simp add: h header_line_def)
  show ?thesis
    using ne by (simp add: run_closed)
qed

section \<open>The row of a zero difference\<close>

lemma sample_stats_512:
  "sample_stats (readings (\<lambda>p k. 512) p k 10) = \<lparr> mean = Finite (2560 / 1023), stddev = Finite 0 \<rparr>"
proof -
  have c: "\<forall>r\<in>set (readings (\<lambda>p k. 512) p k 10). r = 512" by (simp add: readings_def)
  have ne: "readings (\<lambda>p k. 512) p k 10 \<noteq> []" by (simp add: readings_def)
  show ?thesis
    by (simp add: sample_stats_def to_volts_def arith_mean_constant [OF c ne]
          pop_stddev_constant [OF c ne] float_map_Finite)
qed

lemma step_row_512:
  "step_row (\<lambda>p k. 512) k 3 =
     ''0.30,2.5024,0.0000,2.5024,0.0000,2.5024,0.0000,0.0000,0.0000,0.0000,0.0000,0.0000,nan'' @ CRLF"
proof -
  have d: "calcDiffStats \<lparr> mean = Finite (2560 / 1023), stddev = Finite 0 \<rparr>
                         \<lparr> mean = Finite (2560 / 1023), stddev = Finite 0 \<rparr>
      = \<lparr> diff = Finite 0, error = Finite 0 \<rparr>"
    by (simp add: calcDiffStats_def fsub_Finite propagate_addition_stddev_Finite)
  have e: "estimateCurrent \<lparr> diff = Finite 0, error = Finite 0 \<rparr> = (Finite 0, NaN)"
    by (rule estimateCurrent_zero) simp
  show ?thesis
    by (simp add: step_row_def sample_stats_512 d e csv_row_def print_eval)
qed


text \<open>
  C4. When the first difference of a step is exactly \<open>0\<close>, the division by it is not
  trapped: the current is \<open>0\<close> and the current error is \<open>NaN\<close>. \<open>acquireAndPrintData\<close> still
  returns, having written the DAC code, read the three channels and emitted the whole row:
  one line of 13 fields whose last two are \<open>0.0000\<close> and \<open>nan\<close>.
\<close>

theorem zero_difference_row:
  assumes "0 \<le> step" and "step < 51"
    and "diff (calcDiffStats (sample_stats (readings adc A0 (adcReads w) 10))
                             (sample_stats (readings adc A1 (adcReads w + 10) 10))) = Finite 0"
  shows "estimateCurrent (calcDiffStats (sample_stats (readings adc A0 (adcReads w) 10))
                             (sample_stats (readings adc A1 (adcReads w + 10) 10)))
           = (Finite 0, NaN)
       \<and> acquireAndPrintData adc step w =
           Some (w\<lparr> serial := serial w @ step_row adc (adcReads w) step,
                    dacWrites := dacWrites w @ [dac_code step],
                    adcReads := adcReads w + 30,
                    elapsed := elapsed w + 250 \<rparr>)
       \<and> (\<exists>fields. length fields = 11
             \<and> step_row adc (adcReads w) step = join_commas (fields @ [''0.0000'', ''nan'']) @ CRLF)
       \<and> is_line (step_row adc (adcReads w) step) \<and> commas (step_row adc (adcReads w) step) = 12"
proof -
  let ?d = "calcDiffStats (sample_stats (readings adc A0 (adcReads w) 10))
                             (sample_stats (readings adc A1 (adcReads w + 10) 10))"
  have e: "estimateCurrent ?d = (Finite 0, NaN)"
    by (rule estimateCurrent_zero [OF assms(3)])
  have z: "fixed_decimal 0 4 = ''0.0000''" by (simp add: print_eval)
  let ?fields = "take 11 (csv_row (of_int step / 10)
       (sample_stats (readings adc A0 (adcReads w) 10))
       (sample_stats (readings adc A1 (adcReads w + 10) 10))
       (sample_stats (readings adc A2 (adcReads w + 20) 10))
       ?d (calcDiffStats (sample_stats (readings adc A1 (adcReads w + 10) 10))
                         (sample_stats (readings adc A2 (adcReads w + 20) 10)))
       (Finite 0) NaN)"
  have len: "length ?fields = 11" by (simp add: csv_row_def)
  have row: "step_row adc (adcReads w) step = join_commas (?fields @ [''0.0000'', ''nan'']) @ CRLF"
    by (simp add: step_row_def Let_def e) (simp add: csv_row_def z)
  from e acquireAndPrintData_closed [OF assms(1,2), of adc w] len row
       step_row_line [of adc "adcReads w" step]
  show ?thesis by blast
qed

theorem zero_difference_row_witness:
  "(0::int) \<le> 3 \<and> (3::int) < 51
   \<and> diff (calcDiffStats (sample_stats (readings (\<lambda>p k. 512) A0 (adcReads power_up) 10))
                          (sample_stats (readings (\<lambda>p k. 512) A1 (adcReads power_up + 10) 10))) = Finite 0
   \<and> estimateCurrent (calcDiffStats (sample_stats (readings (\<lambda>p k. 512) A0 (adcReads power_up) 10))
                          (sample_stats (readings (\<lambda>p k. 512) A1 (adcReads power_up + 10) 10)))
           = (Finite 0, NaN)
   \<and> acquireAndPrintData (\<lambda>p k. 512) 3 power_up =
       Some \<lparr> hasRun = False,
              serial = ''0.30,2.5024,0.0000,2.5024,0.0000,2.5024,0.0000,0.0000,0.0000,0.0000,0.0000,0.0000,nan'' @ CRLF,
              dacWrites = [240], adcReads = 30, elapsed = 250 \<rparr>"
proof -
  have s: "(0::int) \<le> 3" "(3::int) < 51" by simp_all
  have d: "diff (calcDiffStats (sample_stats (readings (\<lambda>p k. 512) A0 (adcReads power_up) 10))
                          (sample_stats (readings (\<lambda>p k. 512) A1 (adcReads power_up + 10) 10))) = Finite 0"
    by (simp add: sample_stats_512 calcDiffStats_def fsub_Finite)
  have a: "acquireAndPrintData (\<lambda>p k. 512) 3 power_up =
       Some \<lparr> hasRun = False,
              serial = ''0.30,2.5024,0.0000,2.5024,0.0000,2.5024,0.0000,0.0000,0.0000,0.0000,0.0000,0.0000,nan'' @ CRLF,
              dacWrites = [240], adcReads = 30, elapsed = 250 \<rparr>"
    using zero_difference_row [OF s d]
    by (simp add: step_row_512 dac_code_def) (simp add: power_up_def)
  from zero_difference_row [OF s d] s d a show ?thesis by blast
qed

end
